theory Spec2Isabelle
  imports Main "HOL-Library.Word"
begin

section \<open>The circuit breaker of circuitbreaker.go\<close>

text \<open>
  The breaker is a small state machine guarded by one mutex. \<open>Execute\<close> takes the lock
  twice: once to decide admission (phase 1) and once to record the outcome (phase 3); the
  wrapped operation runs in between with no lock held. Each critical section is modelled
  as one function on the breaker's fields, \<open>Execute\<close> as their composition, and the
  interleavings of several callers as a step relation over the critical sections.
\<close>

subsection \<open>Data\<close>

text \<open>\<open>type State int\<close> with its three constants.\<close>

datatype State = StateClosed | StateOpen | StateHalfOpen

text \<open>
  Go's \<open>int\<close> (64 bits on the usual platforms) and \<open>time.Duration\<close> (an \<open>int64\<close> of
  nanoseconds) are 64-bit words read as two's complement: \<open>+\<close> wraps, comparisons are
  the signed ones. A \<open>time.Time\<close> is an integer count of nanoseconds, the zero value
  \<open>time.Time{}\<close> being 0. An \<open>error\<close> is its message, \<open>None\<close> for \<open>nil\<close>.
\<close>

type_synonym goint = "64 word"
type_synonym Duration = "64 word"
type_synonym Time = int
type_synonym error = "string option"

text \<open>
  \<open>OnStateChange\<close> is a caller-supplied function value or \<open>nil\<close>. Its effect falls on
  the caller's world \<open>'w\<close>, which the wrapped operation shares.
\<close>

record 'w Settings =
  FailureThreshold :: goint
  SuccessThreshold :: goint
  Timeout :: Duration
  MaxRequests :: goint
  OnStateChange :: "(State \<Rightarrow> State \<Rightarrow> 'w \<Rightarrow> 'w) option"

record 'w circuitBreaker =
  state :: State
  failureCount :: goint
  successCount :: goint
  halfOpenRequests :: goint
  openedAt :: Time
  settings :: "'w Settings"

definition Second :: Duration where
  "Second = 1000000000"

definition DefaultSettings :: "'w Settings" where
  "DefaultSettings =
     \<lparr>FailureThreshold = 5, SuccessThreshold = 2, Timeout = 30 * Second,
      MaxRequests = 1, OnStateChange = None\<rparr>"

definition New :: "'w Settings \<Rightarrow> 'w circuitBreaker" where
  "New s =
     \<lparr>state = StateClosed, failureCount = 0, successCount = 0, halfOpenRequests = 0,
      openedAt = 0, settings = s\<rparr>"

definition NewWithDefaults :: "'w circuitBreaker" where
  "NewWithDefaults = New DefaultSettings"

subsection \<open>Time\<close>

text \<open>
  \<open>time.Since(t)\<close> is \<open>time.Now().Sub(t)\<close>; \<open>Sub\<close> saturates at the least and the
  greatest \<open>Duration\<close>. The reading of the clock is the argument \<open>now\<close>.
\<close>

definition minDuration :: int where
  "minDuration = - (2 ^ 63)"

definition maxDuration :: int where
  "maxDuration = 2 ^ 63 - 1"

definition time_Since :: "Time \<Rightarrow> Time \<Rightarrow> Duration" where
  "time_Since now t = word_of_int (max minDuration (min maxDuration (now - t)))"

subsection \<open>Operations\<close>

text \<open>
  \<open>setState\<close>: nothing happens when the mode is already the target; otherwise the mode
  changes and the hook, when there is one, is called with the old and the new mode.
\<close>

fun setState :: "State \<Rightarrow> 'w circuitBreaker \<times> 'w \<Rightarrow> 'w circuitBreaker \<times> 'w" where
  "setState newState (cb, w) =
     (if state cb = newState then (cb, w)
      else
        let oldState = state cb;
            cb' = cb\<lparr>state := newState\<rparr>
        in (case OnStateChange (settings cb') of
              None \<Rightarrow> (cb', w)
            | Some h \<Rightarrow> (cb', h oldState newState w)))"

text \<open>
  Phase 1 of \<open>Execute\<close>, first statement: an Open breaker whose cooldown has elapsed
  becomes Half-Open, with the probe and success counters cleared.
\<close>

fun cooldownCheck :: "Time \<Rightarrow> 'w circuitBreaker \<times> 'w \<Rightarrow> 'w circuitBreaker \<times> 'w" where
  "cooldownCheck now (cb, w) =
     (if state cb = StateOpen \<and> Timeout (settings cb) \<le>s time_Since now (openedAt cb)
      then (case setState StateHalfOpen (cb, w) of
              (cb', w') \<Rightarrow> (cb'\<lparr>halfOpenRequests := 0, successCount := 0\<rparr>, w'))
      else (cb, w))"

text \<open>
  Phase 1, the \<open>switch\<close>: the mode read after the check is captured and decides
  admission. A rejection carries the message of the error returned.
\<close>

datatype admission = Rejected string | Admitted State

fun gate :: "'w circuitBreaker \<times> 'w \<Rightarrow> admission \<times> ('w circuitBreaker \<times> 'w)" where
  "gate (cb, w) =
     (case state cb of
        StateOpen \<Rightarrow> (Rejected ''circuit breaker is open'', (cb, w))
      | StateHalfOpen \<Rightarrow>
          (if MaxRequests (settings cb) \<le>s halfOpenRequests cb
           then (Rejected ''circuit breaker is half-open'', (cb, w))
           else (Admitted StateHalfOpen,
                 (cb\<lparr>halfOpenRequests := halfOpenRequests cb + 1\<rparr>, w)))
      | StateClosed \<Rightarrow> (Admitted StateClosed, (cb, w)))"

definition Execute_phase1 ::
    "Time \<Rightarrow> 'w circuitBreaker \<times> 'w \<Rightarrow> admission \<times> ('w circuitBreaker \<times> 'w)" where
  "Execute_phase1 now c = gate (cooldownCheck now c)"

text \<open>
  Phase 3: record the outcome \<open>err\<close> of a call admitted with captured mode \<open>st\<close>;
  \<open>now\<close> is the reading of \<open>time.Now()\<close>.
\<close>

fun Execute_phase3 ::
    "Time \<Rightarrow> State \<Rightarrow> error \<Rightarrow> 'w circuitBreaker \<times> 'w \<Rightarrow> 'w circuitBreaker \<times> 'w" where
  "Execute_phase3 now st err (cb, w) =
     (if err \<noteq> None then
        let cb1 = cb\<lparr>failureCount := failureCount cb + 1, successCount := 0\<rparr>
        in if st = StateHalfOpen \<or> FailureThreshold (settings cb1) \<le>s failureCount cb1
           then (case setState StateOpen (cb1, w) of
                   (cb2, w2) \<Rightarrow> (cb2\<lparr>openedAt := now\<rparr>, w2))
           else (cb1, w)
      else
        let cb1 = cb\<lparr>successCount := successCount cb + 1, failureCount := 0\<rparr>
        in if st = StateHalfOpen
           then
             let cb2 = cb1\<lparr>halfOpenRequests := 0\<rparr>
             in if SuccessThreshold (settings cb2) \<le>s successCount cb2
                then setState StateClosed (cb2, w)
                else (cb2, w)
           else (cb1, w))"

text \<open>
  \<open>Execute\<close> run without interference: nothing else touches the breaker between its two
  critical sections. The wrapped operation \<open>fn\<close> acts on the world and returns a result
  (\<open>None\<close> for \<open>nil\<close>) and an error; it is applied only after an admission. \<open>now\<close> is
  the clock at phase 1, \<open>now'\<close> the clock at phase 3. Other callers, and operations that
  call the breaker themselves, are the interleavings of \<open>reachable\<close> below.
\<close>

definition Execute ::
    "('w \<Rightarrow> ('r option \<times> error) \<times> 'w) \<Rightarrow> Time \<Rightarrow> Time \<Rightarrow> 'w circuitBreaker \<times> 'w
      \<Rightarrow> ('r option \<times> error) \<times> ('w circuitBreaker \<times> 'w)" where
  "Execute fn now now' c =
     (case Execute_phase1 now c of
        (Rejected msg, c1) \<Rightarrow> ((None, Some msg), c1)
      | (Admitted st, (cb1, w1)) \<Rightarrow>
          (case fn w1 of
             ((result, err), w2) \<Rightarrow> ((result, err), Execute_phase3 now' st err (cb1, w2))))"

definition State :: "'w circuitBreaker \<Rightarrow> State" where
  "State cb = state cb"

definition Counts :: "'w circuitBreaker \<Rightarrow> goint \<times> goint" where
  "Counts cb = (failureCount cb, successCount cb)"

fun Reset :: "'w circuitBreaker \<times> 'w \<Rightarrow> 'w circuitBreaker \<times> 'w" where
  "Reset (cb, w) =
     (case setState StateClosed (cb, w) of
        (cb', w') \<Rightarrow>
          (cb'\<lparr>failureCount := 0, successCount := 0, halfOpenRequests := 0, openedAt := 0\<rparr>,
           w'))"

subsection \<open>Runs\<close>

text \<open>
  Successive \<open>Execute\<close> calls by one caller, each with its operation and its two clock
  readings; the results are dropped, the breaker and the world are threaded through.
\<close>

fun Executes ::
    "(('w \<Rightarrow> ('r option \<times> error) \<times> 'w) \<times> Time \<times> Time) list
      \<Rightarrow> 'w circuitBreaker \<times> 'w \<Rightarrow> 'w circuitBreaker \<times> 'w" where
  "Executes [] c = c"
| "Executes ((fn, now, now') # rest) c = Executes rest (snd (Execute fn now now' c))"

text \<open>
  Successive recordings (phase 3) of calls that were all admitted with captured mode
  \<open>st\<close>, each with its clock reading and its error.
\<close>

fun recordAll ::
    "State \<Rightarrow> (Time \<times> error) list \<Rightarrow> 'w circuitBreaker \<times> 'w \<Rightarrow> 'w circuitBreaker \<times> 'w" where
  "recordAll st [] c = c"
| "recordAll st ((now, err) # rest) c = recordAll st rest (Execute_phase3 now st err c)"


text \<open>
  The breaker under several callers. The lock makes phase 1, phase 3 and \<open>Reset\<close>
  atomic; between them the callers interleave freely. A state is the breaker, the world
  and the captured modes of the calls admitted and not yet recorded. The wrapped
  operations and the rest of the program change the world at any moment; \<open>State\<close> and
  \<open>Counts\<close> change nothing. A call whose operation never returns, or panics, stays among
  the pending ones.
\<close>

inductive reachable ::
    "'w Settings \<Rightarrow> 'w circuitBreaker \<times> 'w \<Rightarrow> State list \<Rightarrow> bool" for s where
  start: "reachable s (New s, w) []"
| admitted: "reachable s c p \<Longrightarrow> Execute_phase1 now c = (Admitted st, c') \<Longrightarrow> reachable s c' (st # p)"
| rejected: "reachable s c p \<Longrightarrow> Execute_phase1 now c = (Rejected msg, c') \<Longrightarrow> reachable s c' p"
| worked: "reachable s (cb, w) p \<Longrightarrow> reachable s (cb, w') p"
| recorded: "reachable s c p \<Longrightarrow> st \<in> set p \<Longrightarrow>
           reachable s (Execute_phase3 now st err c) (remove1 st p)"
| was_reset: "reachable s c p \<Longrightarrow> reachable s (Reset c) p"

subsection \<open>Reading the effects\<close>

text \<open>
  What \<open>setState\<close> does with the hook once the mode really changes: the notification
  \<open>(from, to)\<close>, delivered to the hook if one is configured.
\<close>

definition notify :: "'w Settings \<Rightarrow> State \<Rightarrow> State \<Rightarrow> 'w \<Rightarrow> 'w" where
  "notify s from to w = (case OnStateChange s of None \<Rightarrow> w | Some h \<Rightarrow> h from to w)"



text \<open>
  Failures only: each recorded call carries a non-\<open>nil\<close> error whose message is free
  (the empty message included).
\<close>

definition failing :: "(Time \<times> string) list \<Rightarrow> (Time \<times> error) list" where
  "failing ms = map (\<lambda>(t, m). (t, Some m)) ms"

text \<open>Two properties of a breaker that every reachable state has (shown below).\<close>

definition probes_ok :: "'w circuitBreaker \<Rightarrow> bool" where
  "probes_ok cb \<longleftrightarrow>
     (state cb = StateHalfOpen \<longrightarrow>
        0 \<le>s halfOpenRequests cb \<and> halfOpenRequests cb \<le>s MaxRequests (settings cb))"

definition closed_ok :: "'w circuitBreaker \<Rightarrow> bool" where
  "closed_ok cb \<longleftrightarrow>
     (state cb = StateClosed \<longrightarrow>
        0 \<le>s failureCount cb \<and> failureCount cb <s FailureThreshold (settings cb))"

subsection \<open>A test harness\<close>

text \<open>
  A world that logs the notifications and counts the calls of the wrapped operation; a hook
  that appends to the log; a stub operation that returns the given error (and the result
  the demo's service returns with it) and counts itself.
\<close>

record world =
  notifications :: "(State \<times> State) list"
  calls :: nat

definition world0 :: world where
  "world0 = \<lparr>notifications = [], calls = 0\<rparr>"

definition logHook :: "State \<Rightarrow> State \<Rightarrow> world \<Rightarrow> world" where
  "logHook from to w = w\<lparr>notifications := notifications w @ [(from, to)]\<rparr>"

definition stub :: "error \<Rightarrow> world \<Rightarrow> (string option \<times> error) \<times> world" where
  "stub err w =
     ((if err = None then Some ''success'' else Some [], err), w\<lparr>calls := calls w + 1\<rparr>)"

definition unavailable :: error where
  "unavailable = Some ''service unavailable''"

text \<open>The settings of the demo in example/main.go, with the logging hook.\<close>

definition demoSettings :: "world Settings" where
  "demoSettings =
     \<lparr>FailureThreshold = 3, SuccessThreshold = 2, Timeout = 5 * Second,
      MaxRequests = 1, OnStateChange = Some logHook\<rparr>"

text \<open>
  The demo breaker after three failing calls at seconds 0, 1 and 2 (Open since second 2),
  then after a successful probe at second 8, then after a failing probe at second 9.
\<close>

definition sec :: "int \<Rightarrow> Time" where
  "sec n = n * 1000000000"

definition demoOpen :: "world circuitBreaker \<times> world" where
  "demoOpen =
     Executes [(stub unavailable, sec 0, sec 0), (stub unavailable, sec 1, sec 1),
               (stub unavailable, sec 2, sec 2)] (New demoSettings, world0)"

definition demoProbed :: "world circuitBreaker \<times> world" where
  "demoProbed = Executes [(stub None, sec 8, sec 8)] demoOpen"

definition demoReopened :: "world circuitBreaker \<times> world" where
  "demoReopened = Executes [(stub unavailable, sec 9, sec 9)] demoProbed"

text \<open>The demo breaker just after the admission of the probe at second 8.\<close>

definition demoAdmitted :: "world circuitBreaker \<times> world" where
  "demoAdmitted = snd (Execute_phase1 (sec 8) demoOpen)"

text \<open>
  Four failing calls in a row on a fresh demo breaker, at seconds 0, 1, 2 and 8; the error
  of the third has an empty message.
\<close>

definition demoFour ::
    "((world \<Rightarrow> (string option \<times> error) \<times> world) \<times> Time \<times> Time) list" where
  "demoFour =
     [(stub unavailable, sec 0, sec 0), (stub (Some ''timeout''), sec 1, sec 1),
      (stub (Some []), sec 2, sec 2), (stub unavailable, sec 8, sec 9)]"

text \<open>
  A call admitted while the demo breaker was still Closed reports its success only after
  the probe of second 8 has been admitted.
\<close>

definition demoLate :: "world circuitBreaker \<times> world" where
  "demoLate = Execute_phase3 (sec 8) StateClosed None demoAdmitted"

text \<open>
  Two probes in flight: a breaker that opens at the first failure and admits two probes.
  It opens at second 0; past the cooldown, probes A and B are admitted at seconds 6 and 7;
  A reports a failure at second 8, B reports a failure at second 9.
\<close>

definition twoProbeSettings :: "world Settings" where
  "twoProbeSettings =
     \<lparr>FailureThreshold = 1, SuccessThreshold = 2, Timeout = 5 * Second,
      MaxRequests = 2, OnStateChange = Some logHook\<rparr>"

definition raceOpen :: "world circuitBreaker \<times> world" where
  "raceOpen = Executes [(stub unavailable, sec 0, sec 0)] (New twoProbeSettings, world0)"

definition raceA :: "admission \<times> (world circuitBreaker \<times> world)" where
  "raceA = Execute_phase1 (sec 6) raceOpen"

definition raceB :: "admission \<times> (world circuitBreaker \<times> world)" where
  "raceB = Execute_phase1 (sec 7) (snd raceA)"

definition raceAfailed :: "world circuitBreaker \<times> world" where
  "raceAfailed = Execute_phase3 (sec 8) StateHalfOpen unavailable (snd raceB)"

definition raceBfailed :: "world circuitBreaker \<times> world" where
  "raceBfailed = Execute_phase3 (sec 9) StateHalfOpen unavailable raceAfailed"

text \<open>The same two probes, but B reports a success after A's failure.\<close>

definition raceBsucceeded :: "world circuitBreaker \<times> world" where
  "raceBsucceeded = Execute_phase3 (sec 9) StateHalfOpen None raceAfailed"

section \<open>Basic facts\<close>

subsection \<open>The operations as equations\<close>

lemma setState_eq:
  "setState t (cb, w) =
     (cb\<lparr>state := t\<rparr>, if state cb = t then w else notify (settings cb) (state cb) t w)"
  by (simp add: notify_def Let_def split: option.split)

declare setState.simps [simp del]

lemma cooldownCheck_eq:
  "cooldownCheck now (cb, w) =
     (if state cb = StateOpen \<and> Timeout (settings cb) \<le>s time_Since now (openedAt cb)
      then (cb\<lparr>state := StateHalfOpen, halfOpenRequests := 0, successCount := 0\<rparr>,
            notify (settings cb) StateOpen StateHalfOpen w)
      else (cb, w))"
  by (simp add: setState_eq)

declare cooldownCheck.simps [simp del]

lemma phase3_failure:
  assumes "err \<noteq> None"
  shows "Execute_phase3 now st err (cb, w) =
     (if st = StateHalfOpen \<or> FailureThreshold (settings cb) \<le>s failureCount cb + 1
      then (cb\<lparr>failureCount := failureCount cb + 1, successCount := 0, state := StateOpen,
               openedAt := now\<rparr>,
            if state cb = StateOpen then w else notify (settings cb) (state cb) StateOpen w)
      else (cb\<lparr>failureCount := failureCount cb + 1, successCount := 0\<rparr>, w))"
  using assms by (simp add: setState_eq Let_def)

lemma phase3_success:
  "Execute_phase3 now st None (cb, w) =
     (if st = StateHalfOpen
      then (cb\<lparr>successCount := successCount cb + 1, failureCount := 0, halfOpenRequests := 0,
               state := (if SuccessThreshold (settings cb) \<le>s successCount cb + 1
                         then StateClosed else state cb)\<rparr>,
            if SuccessThreshold (settings cb) \<le>s successCount cb + 1 \<and> state cb \<noteq> StateClosed
            then notify (settings cb) (state cb) StateClosed w else w)
      else (cb\<lparr>successCount := successCount cb + 1, failureCount := 0\<rparr>, w))"
  by (simp add: setState_eq Let_def)

declare Execute_phase3.simps [simp del]

lemma Reset_eq:
  "Reset (cb, w) =
     (\<lparr>state = StateClosed, failureCount = 0, successCount = 0, halfOpenRequests = 0,
       openedAt = 0, settings = settings cb\<rparr>,
      if state cb = StateClosed then w else notify (settings cb) (state cb) StateClosed w)"
  by (simp add: setState_eq)

declare Reset.simps [simp del]

text \<open>In Closed mode \<open>Execute\<close> is the operation followed by the recording.\<close>

lemma Execute_closed:
  assumes "state cb = StateClosed"
  shows "Execute fn now now' (cb, w) =
           (fst (fn w), Execute_phase3 now' StateClosed (snd (fst (fn w))) (cb, snd (fn w)))"
  using assms by (simp add: Execute_def Execute_phase1_def cooldownCheck_eq split: prod.split)


text \<open>The captured mode is the mode the admission leaves behind, and it is never Open.\<close>

lemma admitted_mode:
  assumes "Execute_phase1 now (cb, w) = (Admitted st, (cb', w'))"
  shows "state cb' = st \<and> st \<noteq> StateOpen"
  using assms
  by (auto simp add: Execute_phase1_def cooldownCheck_eq split: if_splits State.splits)

subsection \<open>Signed counters\<close>

text \<open>Below another counter, \<open>+ 1\<close> does not wrap.\<close>

lemma sint_succ:
  fixes x y :: goint
  assumes "x <s y"
  shows "sint (x + 1) = sint x + 1"
proof -
  have "sint x < sint y" using assms by (simp add: word_sless_alt)
  moreover have "sint y < 2 ^ 63" using sint_lt [of y] by simp
  moreover have "- (2 ^ 63) \<le> sint x" using sint_ge [of x] by simp
  ultimately have "signed_take_bit 63 (sint x + 1) = sint x + 1"
    by (intro signed_take_bit_int_eq_self) auto
  then show ?thesis by (simp add: sint_word_ariths)
qed

subsection \<open>Calls by one caller stay within the reachable states\<close>

lemma Execute_reachable:
  assumes "reachable s c p"
  shows "reachable s (snd (Execute fn now now' c)) p"
proof -
  obtain a c1 where adm: "Execute_phase1 now c = (a, c1)" by (cases "Execute_phase1 now c")
  show ?thesis
  proof (cases a)
    case (Rejected msg)
    with adm assms show ?thesis
      by (auto simp add: Execute_def intro: reachable.rejected)
  next
    case (Admitted st)
    obtain cb1 w1 where c1: "c1 = (cb1, w1)" by (cases c1)
    obtain r e w2 where fn: "fn w1 = ((r, e), w2)" by (metis prod.exhaust)
    have "reachable s (cb1, w1) (st # p)"
      using assms adm Admitted c1 by (auto intro: reachable.admitted)
    then have "reachable s (cb1, w2) (st # p)" by (rule reachable.worked)
    then have "reachable s (Execute_phase3 now' st e (cb1, w2)) (remove1 st (st # p))"
      by (rule reachable.recorded) simp
    then show ?thesis
      using adm Admitted c1 fn by (simp add: Execute_def)
  qed
qed

lemma Executes_reachable:
  assumes "reachable s c p"
  shows "reachable s (Executes cs c) p"
  using assms
proof (induction cs arbitrary: c)
  case Nil
  then show ?case by simp
next
  case (Cons x cs)
  obtain fn now now' where x: "x = (fn, now, now')" by (cases x)
  from Cons.prems have "reachable s (snd (Execute fn now now' c)) p" by (rule Execute_reachable)
  then show ?case unfolding x by (simp add: Cons.IH)
qed

subsection \<open>Evaluating the test harness\<close>

lemmas harness_defs =
  demoSettings_def twoProbeSettings_def DefaultSettings_def NewWithDefaults_def New_def
  world0_def logHook_def stub_def unavailable_def sec_def Second_def notify_def failing_def
  demoFour_def Execute_def Execute_phase1_def cooldownCheck_eq phase3_failure phase3_success
  Reset_eq time_Since_def minDuration_def maxDuration_def word_sle_eq word_sless_alt
  Counts_def State_def

lemma demoOpen_eq:
  "demoOpen =
    (\<lparr>state = StateOpen, failureCount = 3, successCount = 0, halfOpenRequests = 0,
      openedAt = sec 2, settings = demoSettings\<rparr>,
     \<lparr>notifications = [(StateClosed, StateOpen)], calls = 3\<rparr>)"
  by (simp add: demoOpen_def harness_defs)

lemma demoAdmitted_eq:
  "demoAdmitted =
    (\<lparr>state = StateHalfOpen, failureCount = 3, successCount = 0, halfOpenRequests = 1,
      openedAt = sec 2, settings = demoSettings\<rparr>,
     \<lparr>notifications = [(StateClosed, StateOpen), (StateOpen, StateHalfOpen)], calls = 3\<rparr>)"
  by (simp add: demoAdmitted_def demoOpen_eq) (simp add: harness_defs)

lemma demoAdmitted_admitted:
  "Execute_phase1 (sec 8) demoOpen = (Admitted StateHalfOpen, demoAdmitted)"
  using demoAdmitted_eq by (simp add: demoAdmitted_def demoOpen_eq) (simp add: harness_defs)

lemma demoProbed_eq:
  "demoProbed =
    (\<lparr>state = StateHalfOpen, failureCount = 0, successCount = 1, halfOpenRequests = 0,
      openedAt = sec 2, settings = demoSettings\<rparr>,
     \<lparr>notifications = [(StateClosed, StateOpen), (StateOpen, StateHalfOpen)], calls = 4\<rparr>)"
  by (simp add: demoProbed_def demoOpen_eq) (simp add: harness_defs)

lemma demoReopened_eq:
  "demoReopened =
    (\<lparr>state = StateOpen, failureCount = 1, successCount = 0, halfOpenRequests = 1,
      openedAt = sec 9, settings = demoSettings\<rparr>,
     \<lparr>notifications = [(StateClosed, StateOpen), (StateOpen, StateHalfOpen),
        (StateHalfOpen, StateOpen)], calls = 5\<rparr>)"
  by (simp add: demoReopened_def demoProbed_eq) (simp add: harness_defs)

lemma raceOpen_eq:
  "raceOpen =
    (\<lparr>state = StateOpen, failureCount = 1, successCount = 0, halfOpenRequests = 0,
      openedAt = sec 0, settings = twoProbeSettings\<rparr>,
     \<lparr>notifications = [(StateClosed, StateOpen)], calls = 1\<rparr>)"
  by (simp add: raceOpen_def harness_defs)

lemma raceA_eq:
  "raceA =
    (Admitted StateHalfOpen,
     \<lparr>state = StateHalfOpen, failureCount = 1, successCount = 0, halfOpenRequests = 1,
      openedAt = sec 0, settings = twoProbeSettings\<rparr>,
     \<lparr>notifications = [(StateClosed, StateOpen), (StateOpen, StateHalfOpen)], calls = 1\<rparr>)"
  by (simp add: raceA_def raceOpen_eq) (simp add: harness_defs)

lemma raceB_eq:
  "raceB =
    (Admitted StateHalfOpen,
     \<lparr>state = StateHalfOpen, failureCount = 1, successCount = 0, halfOpenRequests = 2,
      openedAt = sec 0, settings = twoProbeSettings\<rparr>,
     \<lparr>notifications = [(StateClosed, StateOpen), (StateOpen, StateHalfOpen)], calls = 1\<rparr>)"
  by (simp add: raceB_def raceA_eq) (simp add: harness_defs)

lemma raceAfailed_eq:
  "raceAfailed =
    (\<lparr>state = StateOpen, failureCount = 2, successCount = 0, halfOpenRequests = 2,
      openedAt = sec 8, settings = twoProbeSettings\<rparr>,
     \<lparr>notifications = [(StateClosed, StateOpen), (StateOpen, StateHalfOpen),
        (StateHalfOpen, StateOpen)], calls = 1\<rparr>)"
  by (simp add: raceAfailed_def raceB_eq) (simp add: harness_defs)

lemma raceBfailed_eq:
  "raceBfailed =
    (\<lparr>state = StateOpen, failureCount = 3, successCount = 0, halfOpenRequests = 2,
      openedAt = sec 9, settings = twoProbeSettings\<rparr>,
     \<lparr>notifications = [(StateClosed, StateOpen), (StateOpen, StateHalfOpen),
        (StateHalfOpen, StateOpen)], calls = 1\<rparr>)"
  by (simp add: raceBfailed_def raceAfailed_eq) (simp add: harness_defs)

lemma demoLate_eq:
  "demoLate =
    (\<lparr>state = StateHalfOpen, failureCount = 0, successCount = 1, halfOpenRequests = 1,
      openedAt = sec 2, settings = demoSettings\<rparr>,
     \<lparr>notifications = [(StateClosed, StateOpen), (StateOpen, StateHalfOpen)], calls = 3\<rparr>)"
  by (simp add: demoLate_def demoAdmitted_eq) (simp add: harness_defs)

lemma raceBsucceeded_eq:
  "raceBsucceeded =
    (\<lparr>state = StateOpen, failureCount = 0, successCount = 1, halfOpenRequests = 0,
      openedAt = sec 8, settings = twoProbeSettings\<rparr>,
     \<lparr>notifications = [(StateClosed, StateOpen), (StateOpen, StateHalfOpen),
        (StateHalfOpen, StateOpen)], calls = 1\<rparr>)"
  by (simp add: raceBsucceeded_def raceAfailed_eq) (simp add: harness_defs)

text \<open>The demo states are reached by one caller.\<close>

lemma demo_reachable:
  "reachable demoSettings demoOpen []" "reachable demoSettings demoProbed []"
  "reachable demoSettings demoReopened []"
proof -
  show 1: "reachable demoSettings demoOpen []"
    unfolding demoOpen_def by (rule Executes_reachable) (rule reachable.start)
  show 2: "reachable demoSettings demoProbed []"
    unfolding demoProbed_def using 1 by (rule Executes_reachable)
  show "reachable demoSettings demoReopened []"
    unfolding demoReopened_def using 2 by (rule Executes_reachable)
qed

text \<open>The two failing probes are an interleaving of the model.\<close>

lemma race_reachable:
  "reachable twoProbeSettings raceAfailed [StateHalfOpen]"
  "reachable twoProbeSettings raceBfailed []"
proof -
  have 0: "reachable twoProbeSettings raceOpen []"
    unfolding raceOpen_def by (rule Executes_reachable) (rule reachable.start)
  have a: "Execute_phase1 (sec 6) raceOpen = (Admitted StateHalfOpen, snd raceA)"
    using raceA_eq by (simp add: raceA_def)
  have b: "Execute_phase1 (sec 7) (snd raceA) = (Admitted StateHalfOpen, snd raceB)"
    using raceB_eq by (simp add: raceB_def)
  have 1: "reachable twoProbeSettings (snd raceA) [StateHalfOpen]"
    using 0 a by (rule reachable.admitted)
  have 2: "reachable twoProbeSettings (snd raceB) [StateHalfOpen, StateHalfOpen]"
    using 1 b by (rule reachable.admitted)
  have "reachable twoProbeSettings raceAfailed
          (remove1 StateHalfOpen [StateHalfOpen, StateHalfOpen])"
    unfolding raceAfailed_def using 2 by (rule reachable.recorded) simp
  then show 3: "reachable twoProbeSettings raceAfailed [StateHalfOpen]" by simp
  have "reachable twoProbeSettings raceBfailed (remove1 StateHalfOpen [StateHalfOpen])"
    unfolding raceBfailed_def using 3 by (rule reachable.recorded) simp
  then show "reachable twoProbeSettings raceBfailed []" by simp
qed

section \<open>Invariants of the reachable states\<close>

subsection \<open>What each critical section preserves\<close>

lemma phase1_fields:
  assumes "Execute_phase1 now (cb, w) = (a, (cb', w'))"
  shows "settings cb' = settings cb \<and> failureCount cb' = failureCount cb
       \<and> (successCount cb' = successCount cb \<or> successCount cb' = 0)"
  using assms
  by (auto simp add: Execute_phase1_def cooldownCheck_eq split: if_splits State.splits)

lemma phase3_settings: "settings (fst (Execute_phase3 now st err (cb, w))) = settings cb"
  by (cases err) (simp_all add: phase3_success phase3_failure)

lemma phase3_streaks:
  "failureCount (fst (Execute_phase3 now st err (cb, w))) = 0
     \<or> successCount (fst (Execute_phase3 now st err (cb, w))) = 0"
  by (cases err) (simp_all add: phase3_success phase3_failure)

lemma phase1_probes:
  assumes "Execute_phase1 now (cb, w) = (a, (cb', w'))"
    and "0 \<le>s MaxRequests (settings cb)"
    and "probes_ok cb"
  shows "probes_ok cb'"
proof -
  have *: "sint (halfOpenRequests cb + 1) = sint (halfOpenRequests cb) + 1"
    if "halfOpenRequests cb <s MaxRequests (settings cb)"
    using that by (rule sint_succ)
  show ?thesis
    using assms *
    by (auto simp add: Execute_phase1_def cooldownCheck_eq probes_ok_def word_sle_eq
          word_sless_alt split: if_splits State.splits)
qed

lemma phase3_probes:
  assumes "0 \<le>s MaxRequests (settings cb)"
    and "probes_ok cb"
  shows "probes_ok (fst (Execute_phase3 now st err (cb, w)))"
  using assms
  by (cases err) (auto simp add: phase3_success phase3_failure probes_ok_def)

lemma phase1_closed:
  assumes "Execute_phase1 now (cb, w) = (a, (cb', w'))" and "closed_ok cb"
  shows "closed_ok cb'"
  using assms
  by (auto simp add: Execute_phase1_def cooldownCheck_eq closed_ok_def
        split: if_splits State.splits)

lemma phase3_closed:
  assumes "0 <s FailureThreshold (settings cb)" and "closed_ok cb"
  shows "closed_ok (fst (Execute_phase3 now st err (cb, w)))"
proof (cases err)
  case None
  then show ?thesis using assms
    by (auto simp add: phase3_success closed_ok_def)
next
  case (Some m)
  have *: "sint (failureCount cb + 1) = sint (failureCount cb) + 1"
    if "failureCount cb <s FailureThreshold (settings cb)"
    using that by (rule sint_succ)
  show ?thesis using assms Some *
    by (auto simp add: phase3_failure closed_ok_def word_sle_eq word_sless_alt)
qed

subsection \<open>Induction over the interleavings\<close>

lemma reachable_settings:
  assumes "reachable s c p"
  shows "settings (fst c) = s"
  using assms
proof (induction rule: reachable.induct)
  case (start w)
  then show ?case by (simp add: New_def)
next
  case (admitted c p now st c')
  then show ?case
    using phase1_fields [of now "fst c" "snd c" "Admitted st" "fst c'" "snd c'"] by simp
next
  case (rejected c p now msg c')
  then show ?case
    using phase1_fields [of now "fst c" "snd c" "Rejected msg" "fst c'" "snd c'"] by simp
next
  case (worked cb w p w')
  then show ?case by simp
next
  case (recorded c p st now err)
  then show ?case using phase3_settings [of now st err "fst c" "snd c"] by simp
next
  case (was_reset c p)
  then show ?case using Reset_eq [of "fst c" "snd c"] by simp
qed

lemma reachable_streaks:
  assumes "reachable s c p"
  shows "failureCount (fst c) = 0 \<or> successCount (fst c) = 0"
  using assms
proof (induction rule: reachable.induct)
  case (start w)
  then show ?case by (simp add: New_def)
next
  case (admitted c p now st c')
  then show ?case
    using phase1_fields [of now "fst c" "snd c" "Admitted st" "fst c'" "snd c'"] by auto
next
  case (rejected c p now msg c')
  then show ?case
    using phase1_fields [of now "fst c" "snd c" "Rejected msg" "fst c'" "snd c'"] by auto
next
  case (worked cb w p w')
  then show ?case by simp
next
  case (recorded c p st now err)
  then show ?case using phase3_streaks [of now st err "fst c" "snd c"] by simp
next
  case (was_reset c p)
  then show ?case using Reset_eq [of "fst c" "snd c"] by simp
qed

lemma reachable_probes:
  assumes "reachable s c p" and "0 \<le>s MaxRequests s"
  shows "probes_ok (fst c)"
  using assms
proof (induction rule: reachable.induct)
  case (start w)
  then show ?case by (simp add: New_def probes_ok_def)
next
  case (admitted c p now st c')
  then show ?case
    using phase1_probes [of now "fst c" "snd c" "Admitted st" "fst c'" "snd c'"]
      reachable_settings [of s c p] by simp
next
  case (rejected c p now msg c')
  then show ?case
    using phase1_probes [of now "fst c" "snd c" "Rejected msg" "fst c'" "snd c'"]
      reachable_settings [of s c p] by simp
next
  case (worked cb w p w')
  then show ?case by simp
next
  case (recorded c p st now err)
  then show ?case
    using phase3_probes [of "fst c" now st err "snd c"] reachable_settings [of s c p] by simp
next
  case (was_reset c p)
  then show ?case using Reset_eq [of "fst c" "snd c"] by (simp add: probes_ok_def)
qed

text \<open>
  With a positive threshold, a reachable Closed breaker has a streak that is non-negative
  and below the threshold.
\<close>

lemma reachable_closed:
  assumes "reachable s c p" and "0 <s FailureThreshold s"
  shows "closed_ok (fst c)"
  using assms
proof (induction rule: reachable.induct)
  case (start w)
  then show ?case by (simp add: New_def closed_ok_def)
next
  case (admitted c p now st c')
  then show ?case
    using phase1_closed [of now "fst c" "snd c" "Admitted st" "fst c'" "snd c'"] by simp
next
  case (rejected c p now msg c')
  then show ?case
    using phase1_closed [of now "fst c" "snd c" "Rejected msg" "fst c'" "snd c'"] by simp
next
  case (worked cb w p w')
  then show ?case by simp
next
  case (recorded c p st now err)
  then show ?case
    using phase3_closed [of "fst c" now st err "snd c"] reachable_settings [of s c p] by simp
next
  case (was_reset c p)
  then show ?case using Reset_eq [of "fst c" "snd c"] reachable_settings [of s c p]
    by (simp add: closed_ok_def)
qed

subsection \<open>Probes in flight\<close>

text \<open>
  C3, as the claim has it, fails where Half-Open is left for Open. The demo breaker is
  Half-Open after the successful probe of second 8, with \<open>halfOpenRequests\<close> at 0. The
  next probe is admitted (\<open>halfOpenRequests\<close> becomes 1) and fails: the breaker is Open
  and \<open>halfOpenRequests\<close> is still 1. The failure branch of phase 3 does not touch the
  counter.
\<close>

theorem probes_kept_on_reopen:
  "state (fst demoProbed) = StateHalfOpen
   \<and> demoReopened = snd (Execute (stub (Some ''service unavailable'')) (sec 9) (sec 9) demoProbed)
   \<and> state (fst demoReopened) = StateOpen
   \<and> halfOpenRequests (fst demoReopened) = 1
   \<and> halfOpenRequests (fst demoReopened) \<noteq> 0"
  by (simp add: demoProbed_eq demoReopened_eq) (simp add: harness_defs)

text \<open>
  C3, amended. In every reachable state of a breaker with \<open>MaxRequests \<ge> 0\<close>, under any
  interleaving of the callers: while the mode is Half-Open, \<open>halfOpenRequests\<close> lies
  between 0 and \<open>MaxRequests\<close>. The counter is set to 0 when Half-Open is entered (by the
  cooldown check, before the entering call's own admission), and it is 0 whenever
  Half-Open is left for Closed, by a recording or by \<open>Reset\<close>. When a recorded failure
  takes the breaker from Half-Open to Open the counter keeps its value.
\<close>

theorem probes_bounded:
  assumes "reachable s (cb, w) p" and "0 \<le>s MaxRequests s"
  shows "(state cb = StateHalfOpen \<longrightarrow>
            0 \<le>s halfOpenRequests cb \<and> halfOpenRequests cb \<le>s MaxRequests s)
       \<and> (state cb = StateOpen \<and> Timeout s \<le>s time_Since now (openedAt cb) \<longrightarrow>
            state (fst (cooldownCheck now (cb, w))) = StateHalfOpen
          \<and> halfOpenRequests (fst (cooldownCheck now (cb, w))) = 0)
       \<and> (state cb = StateHalfOpen \<and> state (fst (Execute_phase3 now st err (cb, w))) = StateClosed
            \<longrightarrow> halfOpenRequests (fst (Execute_phase3 now st err (cb, w))) = 0)
       \<and> (state cb = StateHalfOpen \<and> state (fst (Execute_phase3 now st err (cb, w))) = StateOpen
            \<longrightarrow> halfOpenRequests (fst (Execute_phase3 now st err (cb, w))) = halfOpenRequests cb)
       \<and> state (fst (Reset (cb, w))) = StateClosed
       \<and> halfOpenRequests (fst (Reset (cb, w))) = 0"
proof -
  have s: "settings cb = s" using reachable_settings [OF assms(1)] by simp
  have 1: "state cb = StateHalfOpen \<longrightarrow>
            0 \<le>s halfOpenRequests cb \<and> halfOpenRequests cb \<le>s MaxRequests s"
    using reachable_probes [OF assms] s by (simp add: probes_ok_def)
  have 2: "state cb = StateOpen \<and> Timeout s \<le>s time_Since now (openedAt cb) \<longrightarrow>
            state (fst (cooldownCheck now (cb, w))) = StateHalfOpen
          \<and> halfOpenRequests (fst (cooldownCheck now (cb, w))) = 0"
    using s by (simp add: cooldownCheck_eq)
  have 3: "state cb = StateHalfOpen \<and> state (fst (Execute_phase3 now st err (cb, w))) = StateClosed
            \<longrightarrow> halfOpenRequests (fst (Execute_phase3 now st err (cb, w))) = 0"
    by (cases err) (auto simp add: phase3_success phase3_failure split: if_splits)
  have 4: "state cb = StateHalfOpen \<and> state (fst (Execute_phase3 now st err (cb, w))) = StateOpen
            \<longrightarrow> halfOpenRequests (fst (Execute_phase3 now st err (cb, w))) = halfOpenRequests cb"
    by (cases err) (auto simp add: phase3_success phase3_failure split: if_splits)
  have 5: "state (fst (Reset (cb, w))) = StateClosed \<and> halfOpenRequests (fst (Reset (cb, w))) = 0"
    by (simp add: Reset_eq)
  from 1 2 3 4 5 show ?thesis by blast
qed

text \<open>
  The demo breaker with its first probe admitted: reachable with that probe pending,
  Half-Open, one probe counted out of one allowed; \<open>Reset\<close> from there leaves no probe
  counted.
\<close>

theorem probes_bounded_witness:
  "reachable demoSettings (fst demoAdmitted, snd demoAdmitted) [StateHalfOpen]
   \<and> 0 \<le>s MaxRequests demoSettings
   \<and> state (fst demoAdmitted) = StateHalfOpen
   \<and> halfOpenRequests (fst demoAdmitted) = 1
   \<and> 0 \<le>s halfOpenRequests (fst demoAdmitted)
   \<and> halfOpenRequests (fst demoAdmitted) \<le>s MaxRequests demoSettings
   \<and> halfOpenRequests (fst (Reset (fst demoAdmitted, snd demoAdmitted))) = 0"
proof -
  from demo_reachable(1) demoAdmitted_admitted have "reachable demoSettings demoAdmitted [StateHalfOpen]"
    by (rule reachable.admitted)
  then have h1: "reachable demoSettings (fst demoAdmitted, snd demoAdmitted) [StateHalfOpen]"
    by simp
  have h2: "0 \<le>s MaxRequests demoSettings" by (simp add: demoSettings_def word_sle_eq)
  have h3: "state (fst demoAdmitted) = StateHalfOpen" by (simp add: demoAdmitted_eq)
  have h4: "halfOpenRequests (fst demoAdmitted) = 1" by (simp add: demoAdmitted_eq)
  note inv = probes_bounded [OF h1 h2]
  show ?thesis
    using h1 h2 h3 h4 inv [THEN conjunct1]
      inv [THEN conjunct2, THEN conjunct2, THEN conjunct2, THEN conjunct2, THEN conjunct2]
    by simp
qed

subsection \<open>The two streaks\<close>

text \<open>
  C10. In every state reachable from \<open>New\<close> by the public operations, under any
  interleaving of the callers (\<open>State\<close> and \<open>Counts\<close> change nothing), at most one of
  \<open>failureCount\<close> and \<open>successCount\<close> is non-zero. Both are 0 in a new breaker and
  after \<open>Reset\<close>; every recorded failure sets \<open>successCount\<close> to 0 and every recorded
  success sets \<open>failureCount\<close> to 0.
\<close>

theorem streaks_exclusive:
  assumes "reachable s (cb, w) p"
  shows "(failureCount cb = 0 \<or> successCount cb = 0)
       \<and> Counts (New s) = (0, 0)
       \<and> (err \<noteq> None \<longrightarrow> successCount (fst (Execute_phase3 now st err (cb, w))) = 0)
       \<and> failureCount (fst (Execute_phase3 now st None (cb, w))) = 0
       \<and> Counts (fst (Reset (cb, w))) = (0, 0)"
  using reachable_streaks [OF assms]
  by (simp add: New_def phase3_failure phase3_success Reset_eq Counts_def)

text \<open>
  The demo breaker after its failed second probe: reachable, with one failure and no
  success counted.
\<close>

theorem streaks_exclusive_witness:
  "reachable demoSettings (fst demoReopened, snd demoReopened) []
   \<and> Counts (fst demoReopened) = (1, 0)
   \<and> (failureCount (fst demoReopened) = 0 \<or> successCount (fst demoReopened) = 0)"
proof -
  have h: "reachable demoSettings (fst demoReopened, snd demoReopened) []"
    using demo_reachable(3) by simp
  have c: "Counts (fst demoReopened) = (1, 0)" by (simp add: demoReopened_eq Counts_def)
  note inv = streaks_exclusive [OF h]
  show ?thesis using h c inv [THEN conjunct1] by simp
qed

section \<open>Admission\<close>

text \<open>
  C2. While the breaker is Open and the time since \<open>openedAt\<close> is strictly below the
  cooldown, \<open>Execute\<close> returns a \<open>nil\<close> result with the error "circuit breaker is open",
  whatever the wrapped operation is: the breaker and the world are left as they were, so
  the operation was not run. The message differs from the Half-Open rejection's.
\<close>

theorem open_rejects_before_cooldown:
  assumes "state cb = StateOpen"
    and "time_Since now (openedAt cb) <s Timeout (settings cb)"
  shows "Execute fn now now' (cb, w) = ((None, Some ''circuit breaker is open''), (cb, w))
       \<and> ''circuit breaker is open'' \<noteq> ''circuit breaker is half-open''"
  using assms
  by (simp add: Execute_def Execute_phase1_def cooldownCheck_eq signed.not_le [symmetric])

text \<open>
  The demo breaker, Open since second 2, called at second 3: rejected, and the stub's call
  counter stays at 3.
\<close>

theorem open_rejects_before_cooldown_witness:
  "state (fst demoOpen) = StateOpen
   \<and> time_Since (sec 3) (openedAt (fst demoOpen)) <s Timeout (settings (fst demoOpen))
   \<and> Execute (stub None) (sec 3) (sec 4) demoOpen
       = ((None, Some ''circuit breaker is open''), demoOpen)
   \<and> calls (snd (snd (Execute (stub None) (sec 3) (sec 4) demoOpen))) = 3"
proof -
  have h1: "state (fst demoOpen) = StateOpen" by (simp add: demoOpen_eq)
  have h2: "time_Since (sec 3) (openedAt (fst demoOpen)) <s Timeout (settings (fst demoOpen))"
    by (simp add: demoOpen_eq harness_defs)
  have "calls (snd demoOpen) = 3" by (simp add: demoOpen_eq)
  then show ?thesis
    using h1 h2 open_rejects_before_cooldown [OF h1 h2, of "stub None" "sec 4" "snd demoOpen"]
    by simp
qed

text \<open>
  C4. On an Open breaker whose cooldown has elapsed, phase 1 of \<open>Execute\<close> first makes
  the breaker Half-Open with \<open>halfOpenRequests\<close> and \<open>successCount\<close> at 0 and fires the
  notification (Open, Half-Open); admission for that same call is then decided by the gate
  on the Half-Open breaker: the call is the first probe when \<open>MaxRequests\<close> is positive,
  and is rejected for capacity otherwise. After it the breaker is no longer Open, so this
  happens at the first such call. Nothing else performs the check: \<open>State\<close> still reports
  Open, and neither a recording nor \<open>Reset\<close> takes an Open breaker to Half-Open.
\<close>

theorem cooldown_elapsed_half_opens:
  assumes "state cb = StateOpen"
    and "Timeout (settings cb) \<le>s time_Since now (openedAt cb)"
  shows "cooldownCheck now (cb, w) =
           (cb\<lparr>state := StateHalfOpen, halfOpenRequests := 0, successCount := 0\<rparr>,
            notify (settings cb) StateOpen StateHalfOpen w)
       \<and> Execute_phase1 now (cb, w) =
           gate (cb\<lparr>state := StateHalfOpen, halfOpenRequests := 0, successCount := 0\<rparr>,
                 notify (settings cb) StateOpen StateHalfOpen w)
       \<and> Execute_phase1 now (cb, w) =
           (if MaxRequests (settings cb) \<le>s 0
            then (Rejected ''circuit breaker is half-open'',
                  (cb\<lparr>state := StateHalfOpen, halfOpenRequests := 0, successCount := 0\<rparr>,
                   notify (settings cb) StateOpen StateHalfOpen w))
            else (Admitted StateHalfOpen,
                  (cb\<lparr>state := StateHalfOpen, halfOpenRequests := 1, successCount := 0\<rparr>,
                   notify (settings cb) StateOpen StateHalfOpen w)))
       \<and> State cb = StateOpen
       \<and> state (fst (Execute_phase3 now' st err (cb, w))) \<noteq> StateHalfOpen
       \<and> state (fst (Reset (cb, w))) \<noteq> StateHalfOpen"
proof -
  have 1: "cooldownCheck now (cb, w) =
           (cb\<lparr>state := StateHalfOpen, halfOpenRequests := 0, successCount := 0\<rparr>,
            notify (settings cb) StateOpen StateHalfOpen w)"
    using assms by (simp add: cooldownCheck_eq)
  have 2: "state (fst (Execute_phase3 now' st err (cb, w))) \<noteq> StateHalfOpen"
    using assms(1) by (cases err) (simp_all add: phase3_success phase3_failure)
  have 3: "state (fst (Reset (cb, w))) \<noteq> StateHalfOpen"
    by (simp add: Reset_eq)
  show ?thesis
    using assms(1) 2 3 unfolding Execute_phase1_def 1 by (simp add: State_def)
qed

text \<open>
  The demo breaker, Open since second 2, called at second 8: Half-Open, the call admitted
  as the one probe, the notification logged.
\<close>

theorem cooldown_elapsed_half_opens_witness:
  "state (fst demoOpen) = StateOpen
   \<and> Timeout (settings (fst demoOpen)) \<le>s time_Since (sec 8) (openedAt (fst demoOpen))
   \<and> Execute_phase1 (sec 8) demoOpen =
       (Admitted StateHalfOpen,
        (\<lparr>state = StateHalfOpen, failureCount = 3, successCount = 0, halfOpenRequests = 1,
          openedAt = sec 2, settings = demoSettings\<rparr>,
         \<lparr>notifications = [(StateClosed, StateOpen), (StateOpen, StateHalfOpen)],
          calls = 3\<rparr>))"
proof -
  have h1: "state (fst demoOpen) = StateOpen" by (simp add: demoOpen_eq)
  have h2: "Timeout (settings (fst demoOpen)) \<le>s time_Since (sec 8) (openedAt (fst demoOpen))"
    by (simp add: demoOpen_eq harness_defs)
  show ?thesis
    using h1 h2 cooldown_elapsed_half_opens [OF h1 h2, of "snd demoOpen"]
    by (simp add: demoOpen_eq) (simp add: harness_defs)
qed

text \<open>
  C7. On a Half-Open breaker: when \<open>halfOpenRequests\<close> has reached \<open>MaxRequests\<close>
  (equal or above), \<open>Execute\<close> returns a \<open>nil\<close> result with the error "circuit breaker
  is half-open" whatever the wrapped operation is, and leaves the breaker and the world as
  they were; when \<open>halfOpenRequests\<close> is below \<open>MaxRequests\<close>, phase 1 admits the call
  with captured mode Half-Open and \<open>halfOpenRequests\<close> one higher (no wrap-around), and
  \<open>Execute\<close> runs the operation and records its outcome.
\<close>

theorem halfopen_capacity_gate:
  assumes "state cb = StateHalfOpen"
  shows "(MaxRequests (settings cb) \<le>s halfOpenRequests cb \<longrightarrow>
            Execute fn now now' (cb, w) =
              ((None, Some ''circuit breaker is half-open''), (cb, w)))
       \<and> (halfOpenRequests cb <s MaxRequests (settings cb) \<longrightarrow>
            Execute_phase1 now (cb, w) =
              (Admitted StateHalfOpen, (cb\<lparr>halfOpenRequests := halfOpenRequests cb + 1\<rparr>, w))
          \<and> sint (halfOpenRequests cb + 1) = sint (halfOpenRequests cb) + 1
          \<and> Execute fn now now' (cb, w) =
              (fst (fn w),
               Execute_phase3 now' StateHalfOpen (snd (fst (fn w)))
                 (cb\<lparr>halfOpenRequests := halfOpenRequests cb + 1\<rparr>, snd (fn w))))"
  using assms
  by (auto simp add: Execute_def Execute_phase1_def cooldownCheck_eq signed.not_le [symmetric]
        sint_succ split: prod.split)

text \<open>
  The demo breaker allows one probe. With the probe of second 8 in flight a further call is
  rejected and the stub is not run; once that probe has succeeded the next call is
  admitted.
\<close>

theorem halfopen_capacity_gate_witness:
  "state (fst demoAdmitted) = StateHalfOpen
   \<and> MaxRequests (settings (fst demoAdmitted)) \<le>s halfOpenRequests (fst demoAdmitted)
   \<and> Execute (stub None) (sec 8) (sec 8) demoAdmitted
       = ((None, Some ''circuit breaker is half-open''), demoAdmitted)
   \<and> state (fst demoProbed) = StateHalfOpen
   \<and> halfOpenRequests (fst demoProbed) <s MaxRequests (settings (fst demoProbed))
   \<and> Execute_phase1 (sec 9) demoProbed
       = (Admitted StateHalfOpen, ((fst demoProbed)\<lparr>halfOpenRequests := 1\<rparr>, snd demoProbed))"
proof -
  have h1: "state (fst demoAdmitted) = StateHalfOpen" by (simp add: demoAdmitted_eq)
  have h2: "MaxRequests (settings (fst demoAdmitted)) \<le>s halfOpenRequests (fst demoAdmitted)"
    by (simp add: demoAdmitted_eq harness_defs)
  have h3: "state (fst demoProbed) = StateHalfOpen" by (simp add: demoProbed_eq)
  have h4: "halfOpenRequests (fst demoProbed) <s MaxRequests (settings (fst demoProbed))"
    by (simp add: demoProbed_eq harness_defs)
  have h5: "halfOpenRequests (fst demoProbed) + 1 = 1" by (simp add: demoProbed_eq)
  show ?thesis
    using h1 h2 h3 h4 h5
      halfopen_capacity_gate [OF h1, of "stub None" "sec 8" "sec 8" "snd demoAdmitted"]
      halfopen_capacity_gate [OF h3, of "stub None" "sec 9" "sec 9" "snd demoProbed"]
    by simp
qed

section \<open>Recording an outcome\<close>

text \<open>
  C6, as the claim has it, fails when the breaker has left Half-Open before the success is
  recorded. Of the two probes in flight, A fails and reopens the breaker; then B, a call
  admitted with captured mode Half-Open, succeeds. Its success is the first one
  (\<open>successCount\<close> becomes 1, below the threshold 2), and the mode does not remain
  Half-Open: the breaker is Open before and after the recording.
\<close>

theorem late_probe_success_stays_open:
  "reachable twoProbeSettings raceAfailed [StateHalfOpen]
   \<and> fst raceB = Admitted StateHalfOpen
   \<and> state (fst raceAfailed) = StateOpen
   \<and> raceBsucceeded = Execute_phase3 (sec 9) StateHalfOpen None raceAfailed
   \<and> successCount (fst raceBsucceeded) = 1
   \<and> successCount (fst raceBsucceeded) <s SuccessThreshold (settings (fst raceBsucceeded))
   \<and> state (fst raceBsucceeded) = StateOpen
   \<and> state (fst raceBsucceeded) \<noteq> StateHalfOpen"
proof -
  have r: "reachable twoProbeSettings raceAfailed [StateHalfOpen]"
    by (rule race_reachable(1))
  have d: "raceBsucceeded = Execute_phase3 (sec 9) StateHalfOpen None raceAfailed"
    by (rule raceBsucceeded_def)
  have a: "fst raceB = Admitted StateHalfOpen" "state (fst raceAfailed) = StateOpen"
    by (simp_all add: raceB_eq raceAfailed_eq)
  have b: "successCount (fst raceBsucceeded) = 1"
    "successCount (fst raceBsucceeded) <s SuccessThreshold (settings (fst raceBsucceeded))"
    "state (fst raceBsucceeded) = StateOpen" "state (fst raceBsucceeded) \<noteq> StateHalfOpen"
    by (simp_all add: raceBsucceeded_eq twoProbeSettings_def word_sless_alt)
  from r d a b show ?thesis by blast
qed

text \<open>
  C6, amended. Recording a success of a call admitted with captured mode Half-Open:
  \<open>successCount\<close> goes up by one, \<open>failureCount\<close> and \<open>halfOpenRequests\<close> are set
  to 0. When the new \<open>successCount\<close> has reached \<open>SuccessThreshold\<close> the breaker is
  Closed afterwards, and the notification (previous mode, Closed) is fired exactly when it
  was not Closed already. When it has not, the mode is left as it was at the recording
  and nothing is fired: the breaker remains Half-Open if it was still Half-Open, which it
  is whenever the recording follows the admission directly, and it stays Open or Closed if
  another call has moved it in between. \<open>successCount\<close> goes up by one at every
  recorded success, whatever the captured mode of the call.
\<close>

theorem probe_success_effects:
  "Execute_phase3 now StateHalfOpen None (cb, w) =
     (cb\<lparr>successCount := successCount cb + 1, failureCount := 0, halfOpenRequests := 0,
         state := (if SuccessThreshold (settings cb) \<le>s successCount cb + 1
                   then StateClosed else state cb)\<rparr>,
      if SuccessThreshold (settings cb) \<le>s successCount cb + 1 \<and> state cb \<noteq> StateClosed
      then notify (settings cb) (state cb) StateClosed w else w)
   \<and> (SuccessThreshold (settings cb) \<le>s successCount cb + 1 \<longrightarrow>
        state (fst (Execute_phase3 now StateHalfOpen None (cb, w))) = StateClosed)
   \<and> (successCount cb + 1 <s SuccessThreshold (settings cb) \<longrightarrow>
        state (fst (Execute_phase3 now StateHalfOpen None (cb, w))) = state cb
      \<and> snd (Execute_phase3 now StateHalfOpen None (cb, w)) = w)
   \<and> (state cb = StateHalfOpen \<longrightarrow>
        (state (fst (Execute_phase3 now StateHalfOpen None (cb, w))) = StateClosed
           \<longleftrightarrow> SuccessThreshold (settings cb) \<le>s successCount cb + 1)
      \<and> (successCount cb + 1 <s SuccessThreshold (settings cb) \<longrightarrow>
           state (fst (Execute_phase3 now StateHalfOpen None (cb, w))) = StateHalfOpen))
   \<and> (Execute_phase1 t (cb0, w0) = (Admitted StateHalfOpen, (cb, w1)) \<longrightarrow>
        state cb = StateHalfOpen)
   \<and> successCount (fst (Execute_phase3 now st None (cb, w))) = successCount cb + 1"
  using admitted_mode [of t cb0 w0 StateHalfOpen cb w1]
  by (simp add: phase3_success signed.not_le [symmetric])

text \<open>
  The demo breaker needs two successes. The probe admitted at second 8 succeeds: one
  success, still Half-Open, the probe slot free. A second probe succeeds: Closed, with the
  notification (Half-Open, Closed). And when a call admitted in Closed mode has reported
  its success after the admission of the first probe, that probe's success is already the
  second one and closes the breaker.
\<close>

theorem probe_success_effects_witness:
  "Execute_phase1 (sec 8) demoOpen = (Admitted StateHalfOpen, demoAdmitted)
   \<and> state (fst demoAdmitted) = StateHalfOpen
   \<and> successCount (fst demoAdmitted) + 1 <s SuccessThreshold (settings (fst demoAdmitted))
   \<and> Execute_phase3 (sec 8) StateHalfOpen None demoAdmitted =
       (\<lparr>state = StateHalfOpen, failureCount = 0, successCount = 1, halfOpenRequests = 0,
         openedAt = sec 2, settings = demoSettings\<rparr>, snd demoAdmitted)
   \<and> state (fst demoProbed) = StateHalfOpen
   \<and> SuccessThreshold (settings (fst demoProbed)) \<le>s successCount (fst demoProbed) + 1
   \<and> state (fst (Execute_phase3 (sec 9) StateHalfOpen None demoProbed)) = StateClosed
   \<and> notifications (snd (Execute_phase3 (sec 9) StateHalfOpen None demoProbed)) =
       [(StateClosed, StateOpen), (StateOpen, StateHalfOpen), (StateHalfOpen, StateClosed)]
   \<and> successCount (fst demoLate) = successCount (fst demoAdmitted) + 1
   \<and> SuccessThreshold (settings (fst demoLate)) \<le>s successCount (fst demoLate) + 1
   \<and> state (fst (Execute_phase3 (sec 9) StateHalfOpen None demoLate)) = StateClosed"
proof -
  have h0: "Execute_phase1 (sec 8) demoOpen = (Admitted StateHalfOpen, demoAdmitted)"
    by (rule demoAdmitted_admitted)
  note p = probe_success_effects [of "sec 8" "fst demoAdmitted" "snd demoAdmitted" "sec 8"
        "fst demoOpen" "snd demoOpen" "snd demoAdmitted" StateClosed]
  have h1: "state (fst demoAdmitted) = StateHalfOpen"
    using h0 p by simp
  have h2: "successCount (fst demoAdmitted) + 1 <s SuccessThreshold (settings (fst demoAdmitted))"
    by (simp add: demoAdmitted_eq harness_defs)
  have h3: "state (fst demoProbed) = StateHalfOpen" by (simp add: demoProbed_eq)
  have h4: "SuccessThreshold (settings (fst demoProbed)) \<le>s successCount (fst demoProbed) + 1"
    by (simp add: demoProbed_eq harness_defs)
  have h5: "SuccessThreshold (settings (fst demoLate)) \<le>s successCount (fst demoLate) + 1"
    by (simp add: demoLate_eq harness_defs)
  have e1: "demoAdmitted = (fst demoAdmitted, snd demoAdmitted)" by simp
  have e2: "demoProbed = (fst demoProbed, snd demoProbed)" by simp
  have e3: "demoLate = (fst demoLate, snd demoLate)" by simp
  have a: "Execute_phase3 (sec 8) StateHalfOpen None demoAdmitted =
       (\<lparr>state = StateHalfOpen, failureCount = 0, successCount = 1, halfOpenRequests = 0,
         openedAt = sec 2, settings = demoSettings\<rparr>, snd demoAdmitted)"
    using h2 p
    by (subst e1) (simp add: demoAdmitted_eq signed.not_le [symmetric])
  have b: "state (fst (Execute_phase3 (sec 9) StateHalfOpen None demoProbed)) = StateClosed
   \<and> notifications (snd (Execute_phase3 (sec 9) StateHalfOpen None demoProbed)) =
       [(StateClosed, StateOpen), (StateOpen, StateHalfOpen), (StateHalfOpen, StateClosed)]"
    using h4 probe_success_effects [of "sec 9" "fst demoProbed" "snd demoProbed"]
    by (subst (1 2) e2) (simp add: demoProbed_eq notify_def demoSettings_def logHook_def)
  have c: "successCount (fst demoLate) = successCount (fst demoAdmitted) + 1"
    using p [THEN conjunct2, THEN conjunct2, THEN conjunct2, THEN conjunct2, THEN conjunct2]
    by (simp add: demoLate_def)
  have d: "state (fst (Execute_phase3 (sec 9) StateHalfOpen None demoLate)) = StateClosed"
    using h5 probe_success_effects [of "sec 9" "fst demoLate" "snd demoLate",
        THEN conjunct2, THEN conjunct1]
    by simp
  from h0 h1 h2 h3 h4 h5 a b c d show ?thesis by simp
qed

text \<open>
  C5, as the claim has it, fails when two probes are in flight (\<open>MaxRequests = 2\<close>) and
  both fail: the failure of probe A reopens the breaker and fires (Half-Open, Open); the
  failure of probe B, a call admitted with captured mode Half-Open, finds the breaker
  already Open, and \<open>setState\<close> returns at once: no notification is fired for it. (The
  same sequence of critical sections arises with a single caller whose operation itself
  calls \<open>Execute\<close>.)
\<close>

theorem second_probe_failure_silent:
  "reachable twoProbeSettings raceAfailed [StateHalfOpen]
   \<and> fst raceA = Admitted StateHalfOpen \<and> fst raceB = Admitted StateHalfOpen
   \<and> state (fst raceAfailed) = StateOpen
   \<and> notifications (snd raceAfailed) =
        [(StateClosed, StateOpen), (StateOpen, StateHalfOpen), (StateHalfOpen, StateOpen)]
   \<and> raceBfailed = Execute_phase3 (sec 9) StateHalfOpen (Some ''service unavailable'') raceAfailed
   \<and> state (fst raceBfailed) = StateOpen
   \<and> notifications (snd raceBfailed) = notifications (snd raceAfailed)"
  using race_reachable(1)
  by (simp add: raceA_eq raceB_eq raceAfailed_eq raceBfailed_eq phase3_failure)

text \<open>
  C5, amended. Recording a failure (any non-\<open>nil\<close> error) of a call admitted with
  captured mode Half-Open leaves the breaker Open with \<open>openedAt\<close> at the time of the
  recording, \<open>failureCount\<close> one higher and \<open>successCount\<close> at 0, whatever
  \<open>SuccessThreshold\<close> and \<open>successCount\<close> were. The notification (previous mode, Open)
  is fired exactly when the breaker was not already Open at the recording; it is
  (Half-Open, Open) whenever the recording follows the admission directly.
\<close>

theorem probe_failure_reopens:
  assumes "err \<noteq> None"
  shows "Execute_phase3 now StateHalfOpen err (cb, w) =
           (cb\<lparr>failureCount := failureCount cb + 1, successCount := 0, state := StateOpen,
               openedAt := now\<rparr>,
            if state cb = StateOpen then w else notify (settings cb) (state cb) StateOpen w)
       \<and> (Execute_phase1 t (cb0, w0) = (Admitted StateHalfOpen, (cb, w1)) \<longrightarrow>
            snd (Execute_phase3 now StateHalfOpen err (cb, w))
              = notify (settings cb) StateHalfOpen StateOpen w)"
  using assms admitted_mode [of t cb0 w0 StateHalfOpen cb w1]
  by (auto simp add: phase3_failure)

text \<open>
  With probe B just admitted next to it (second 7), probe A of the two-probe breaker fails
  at second 8: Open since second 8, and (Half-Open, Open) is logged.
\<close>

theorem probe_failure_reopens_witness:
  "unavailable \<noteq> None
   \<and> Execute_phase1 (sec 7) (snd raceA) = (Admitted StateHalfOpen, snd raceB)
   \<and> Execute_phase3 (sec 8) StateHalfOpen unavailable (snd raceB) =
       (\<lparr>state = StateOpen, failureCount = 2, successCount = 0, halfOpenRequests = 2,
         openedAt = sec 8, settings = twoProbeSettings\<rparr>,
        \<lparr>notifications = [(StateClosed, StateOpen), (StateOpen, StateHalfOpen),
           (StateHalfOpen, StateOpen)], calls = 1\<rparr>)
   \<and> snd (Execute_phase3 (sec 8) StateHalfOpen unavailable (snd raceB))
       = logHook StateHalfOpen StateOpen (snd (snd raceB))"
proof -
  have h: "unavailable \<noteq> None" by (simp add: unavailable_def)
  have e: "snd raceB = (fst (snd raceB), snd (snd raceB))" by simp
  have a: "Execute_phase1 (sec 7) (fst (snd raceA), snd (snd raceA))
             = (Admitted StateHalfOpen, (fst (snd raceB), snd (snd raceB)))"
    using raceB_eq by (simp add: raceB_def)
  note r = probe_failure_reopens [OF h, of "sec 8" "fst (snd raceB)" "snd (snd raceB)"
      "sec 7" "fst (snd raceA)" "snd (snd raceA)" "snd (snd raceB)"]
  have 1: "Execute_phase3 (sec 8) StateHalfOpen unavailable (snd raceB) =
       (\<lparr>state = StateOpen, failureCount = 2, successCount = 0, halfOpenRequests = 2,
         openedAt = sec 8, settings = twoProbeSettings\<rparr>,
        \<lparr>notifications = [(StateClosed, StateOpen), (StateOpen, StateHalfOpen),
           (StateHalfOpen, StateOpen)], calls = 1\<rparr>)"
    using r [THEN conjunct1]
    by (subst e) (simp add: raceB_eq notify_def twoProbeSettings_def logHook_def)
  have 2: "snd (Execute_phase3 (sec 8) StateHalfOpen unavailable (snd raceB))
       = logHook StateHalfOpen StateOpen (snd (snd raceB))"
    using a r [THEN conjunct2]
    by (subst e) (simp add: raceB_eq notify_def twoProbeSettings_def)
  from h a 1 2 show ?thesis by simp
qed

section \<open>Consecutive failures in Closed mode\<close>

subsection \<open>Calls by one caller, one after the other\<close>







text \<open>The failure that takes the streak to the threshold opens the breaker.\<close>

lemma closed_at:
  assumes "state cb = StateClosed"
    and "sint (FailureThreshold (settings cb)) - sint (failureCount cb) = 1"
  shows "Execute_phase3 t StateClosed (Some m) (cb, w) =
           (cb\<lparr>failureCount := failureCount cb + 1, successCount := 0, state := StateOpen,
               openedAt := t\<rparr>,
            notify (settings cb) StateClosed StateOpen w)"
proof -
  have lt: "failureCount cb <s FailureThreshold (settings cb)"
    using assms(2) by (simp add: word_sless_alt)
  have s1: "sint (failureCount cb + 1) = sint (failureCount cb) + 1"
    using lt by (rule sint_succ)
  have "FailureThreshold (settings cb) \<le>s failureCount cb + 1"
    using assms(2) s1 by (simp add: word_sle_eq)
  then show ?thesis using assms(1) by (simp add: phase3_failure)
qed










subsection \<open>Overlapping calls\<close>

lemma recordAll_append:
  "recordAll st (xs @ ys) c = recordAll st ys (recordAll st xs c)"
  by (induction st xs c rule: recordAll.induct) simp_all

text \<open>While the streak stays below the threshold the breaker stays Closed and silent.\<close>

lemma closed_below:
  assumes "state cb = StateClosed"
    and "int (length ms) < sint (FailureThreshold (settings cb)) - sint (failureCount cb)"
  shows "state (fst (recordAll StateClosed (failing ms) (cb, w))) = StateClosed
       \<and> snd (recordAll StateClosed (failing ms) (cb, w)) = w
       \<and> settings (fst (recordAll StateClosed (failing ms) (cb, w))) = settings cb
       \<and> sint (failureCount (fst (recordAll StateClosed (failing ms) (cb, w))))
           = sint (failureCount cb) + int (length ms)"
  using assms
proof (induction ms arbitrary: cb)
  case Nil
  then show ?case by (simp add: failing_def)
next
  case (Cons x ms)
  obtain t m where x: "x = (t, m)" by (cases x)
  let ?cb1 = "cb\<lparr>failureCount := failureCount cb + 1, successCount := 0\<rparr>"
  have lt: "failureCount cb <s FailureThreshold (settings cb)"
    using Cons.prems(2) by (simp add: word_sless_alt)
  have s1: "sint (failureCount cb + 1) = sint (failureCount cb) + 1"
    using lt by (rule sint_succ)
  have no: "\<not> FailureThreshold (settings cb) \<le>s failureCount cb + 1"
    using Cons.prems(2) s1 by (simp add: word_sle_eq)
  have step: "Execute_phase3 t StateClosed (Some m) (cb, w) = (?cb1, w)"
    using no by (simp add: phase3_failure)
  have "state ?cb1 = StateClosed" using Cons.prems(1) by simp
  moreover have
    "int (length ms) < sint (FailureThreshold (settings ?cb1)) - sint (failureCount ?cb1)"
    using Cons.prems(2) s1 by simp
  ultimately have IH: "state (fst (recordAll StateClosed (failing ms) (?cb1, w))) = StateClosed
       \<and> snd (recordAll StateClosed (failing ms) (?cb1, w)) = w
       \<and> settings (fst (recordAll StateClosed (failing ms) (?cb1, w))) = settings ?cb1
       \<and> sint (failureCount (fst (recordAll StateClosed (failing ms) (?cb1, w))))
           = sint (failureCount ?cb1) + int (length ms)"
    by (rule Cons.IH)
  have "recordAll StateClosed (failing (x # ms)) (cb, w)
          = recordAll StateClosed (failing ms) (?cb1, w)"
    unfolding x using step by (simp add: failing_def)
  then show ?case using IH s1 by simp
qed

text \<open>Failures recorded on an Open breaker leave it Open and fire nothing.\<close>

lemma open_stays:
  assumes "state cb = StateOpen"
  shows "state (fst (recordAll st (failing ms) (cb, w))) = StateOpen
       \<and> snd (recordAll st (failing ms) (cb, w)) = w"
  using assms
proof (induction ms arbitrary: cb)
  case Nil
  then show ?case by (simp add: failing_def)
next
  case (Cons x ms)
  obtain t m where x: "x = (t, m)" by (cases x)
  have "state (fst (Execute_phase3 t st (Some m) (cb, w))) = StateOpen
      \<and> snd (Execute_phase3 t st (Some m) (cb, w)) = w"
    using Cons.prems by (simp add: phase3_failure)
  then obtain cb1 where step: "Execute_phase3 t st (Some m) (cb, w) = (cb1, w)"
    and o: "state cb1 = StateOpen"
    by (metis prod.collapse)
  have "recordAll st (failing (x # ms)) (cb, w) = recordAll st (failing ms) (cb1, w)"
    unfolding x using step by (simp add: failing_def)
  then show ?case using Cons.IH [OF o] by simp
qed

text \<open>
  Calls that overlap can all be admitted in Closed mode before the first failure is
  recorded. Recorded back to back, their failures open the breaker once: \<open>k\<close> is the
  number of failures still missing, \<open>j\<close> the number of failures recorded so far.
\<close>

lemma closed_failures_run:
  assumes closed: "state cb = StateClosed"
    and below: "failureCount cb <s FailureThreshold (settings cb)"
    and k: "k = nat (sint (FailureThreshold (settings cb)) - sint (failureCount cb))"
    and enough: "k \<le> length ms"
    and j: "j \<le> length ms"
  shows "(j < k \<longrightarrow>
            state (fst (recordAll StateClosed (failing (take j ms)) (cb, w))) = StateClosed
          \<and> snd (recordAll StateClosed (failing (take j ms)) (cb, w)) = w)
       \<and> (k \<le> j \<longrightarrow>
            state (fst (recordAll StateClosed (failing (take j ms)) (cb, w))) = StateOpen
          \<and> snd (recordAll StateClosed (failing (take j ms)) (cb, w))
              = notify (settings cb) StateClosed StateOpen w)
       \<and> (j = k \<longrightarrow>
            openedAt (fst (recordAll StateClosed (failing (take j ms)) (cb, w)))
              = fst (ms ! (k - 1)))"
proof -
  let ?D = "sint (FailureThreshold (settings cb)) - sint (failureCount cb)"
  have D: "0 < ?D" using below by (simp add: word_sless_alt)
  have kD: "int k = ?D" using k D by simp
  have kpos: "0 < k" using kD D by simp
  have part1: "state (fst (recordAll StateClosed (failing (take j ms)) (cb, w))) = StateClosed
          \<and> snd (recordAll StateClosed (failing (take j ms)) (cb, w)) = w" if "j < k"
  proof -
    have "int (length (take j ms)) < ?D" using that j kD by simp
    from closed_below [OF closed this] show ?thesis by simp
  qed
  let ?pre = "take (k - 1) ms"
  obtain cbA where A: "recordAll StateClosed (failing ?pre) (cb, w) = (cbA, w)"
    and cA: "state cbA = StateClosed" and sA: "settings cbA = settings cb"
    and fA: "sint (failureCount cbA) = sint (failureCount cb) + int (k - 1)"
  proof -
    have "int (length ?pre) < ?D" using enough kD kpos by simp
    from closed_below [OF closed this, of w] have
      "state (fst (recordAll StateClosed (failing ?pre) (cb, w))) = StateClosed"
      "snd (recordAll StateClosed (failing ?pre) (cb, w)) = w"
      "settings (fst (recordAll StateClosed (failing ?pre) (cb, w))) = settings cb"
      "sint (failureCount (fst (recordAll StateClosed (failing ?pre) (cb, w))))
           = sint (failureCount cb) + int (length ?pre)"
      by simp_all
    moreover have "length ?pre = k - 1" using enough by simp
    ultimately show ?thesis
      using that [of "fst (recordAll StateClosed (failing ?pre) (cb, w))"]
      by (metis prod.collapse)
  qed
  obtain t m where km: "ms ! (k - 1) = (t, m)" by (cases "ms ! (k - 1)")
  have one: "sint (FailureThreshold (settings cbA)) - sint (failureCount cbA) = 1"
    using sA fA kD kpos by simp
  let ?cbB = "cbA\<lparr>failureCount := failureCount cbA + 1, successCount := 0, state := StateOpen,
               openedAt := t\<rparr>"
  have B: "Execute_phase3 t StateClosed (Some m) (cbA, w) =
           (?cbB, notify (settings cb) StateClosed StateOpen w)"
    using closed_at [OF cA one, of t m w] sA by simp
  have takek: "take k ms = ?pre @ [(t, m)]"
    using take_Suc_conv_app_nth [of "k - 1" ms] kpos enough km by simp
  have atk: "recordAll StateClosed (failing (take k ms)) (cb, w)
             = (?cbB, notify (settings cb) StateClosed StateOpen w)"
    unfolding takek using A B
    by (simp add: failing_def recordAll_append)
  have part2: "state (fst (recordAll StateClosed (failing (take j ms)) (cb, w))) = StateOpen
          \<and> snd (recordAll StateClosed (failing (take j ms)) (cb, w))
              = notify (settings cb) StateClosed StateOpen w" if "k \<le> j"
  proof -
    have "take j ms = take k ms @ drop k (take j ms)"
      using that by (metis append_take_drop_id min.absorb1 take_take)
    then have "recordAll StateClosed (failing (take j ms)) (cb, w)
        = recordAll StateClosed (failing (drop k (take j ms)))
            (?cbB, notify (settings cb) StateClosed StateOpen w)"
      using atk by (metis failing_def map_append recordAll_append)
    moreover have "state ?cbB = StateOpen" by simp
    ultimately show ?thesis using open_stays by metis
  qed
  have part3: "openedAt (fst (recordAll StateClosed (failing (take j ms)) (cb, w)))
              = fst (ms ! (k - 1))" if "j = k"
    using that atk km by simp
  from part1 part2 part3 show ?thesis by blast
qed

section \<open>The success count outside Half-Open\<close>

text \<open>
  C9, as the claim has it, fails on a fresh breaker with the default settings: one
  successful call in Closed mode and \<open>Counts\<close> reports one success, the mode still
  Closed. Phase 3 increments \<open>successCount\<close> in every mode.
\<close>

theorem closed_success_counted:
  "State (fst (Executes [(stub None, sec 0, sec 0)] (NewWithDefaults, world0))) = StateClosed
   \<and> Counts (fst (Executes [(stub None, sec 0, sec 0)] (NewWithDefaults, world0))) = (0, 1)"
  by (simp add: harness_defs)

text \<open>
  C9, amended. \<open>successCount\<close> counts the consecutive recorded successes in whatever mode
  the calls were admitted: every recorded success adds one. In Closed mode it accumulates:
  after \<open>n\<close> successful calls in a row the breaker is still Closed and \<open>Counts\<close> reports
  the earlier count plus \<open>n\<close> (with \<open>failureCount\<close> at 0 once \<open>n > 0\<close>). It is set to 0
  by every recorded failure, on entering Half-Open, and by \<open>Reset\<close>. It is read only
  when a success of a call admitted in Half-Open is recorded: a success with any other
  captured mode leaves the mode as it was and fires nothing, and what a recorded failure,
  an admission and \<open>Reset\<close> do does not depend on it.
\<close>

theorem closed_successes_accumulate:
  assumes "state cb = StateClosed"
    and "\<forall>(fn, tt) \<in> set cs. \<forall>v. snd (fst (fn v)) = None"
  shows "state (fst (Executes cs (cb, w))) = StateClosed
       \<and> Counts (fst (Executes cs (cb, w)))
           = (if cs = [] then failureCount cb else 0, successCount cb + of_nat (length cs))
       \<and> successCount (fst (Execute_phase3 now st None (cb', w'))) = successCount cb' + 1
       \<and> (err \<noteq> None \<longrightarrow> successCount (fst (Execute_phase3 now st err (cb', w'))) = 0)
       \<and> (state cb' = StateOpen \<and> Timeout (settings cb') \<le>s time_Since now (openedAt cb') \<longrightarrow>
            successCount (fst (cooldownCheck now (cb', w'))) = 0)
       \<and> successCount (fst (Reset (cb', w'))) = 0
       \<and> (st \<noteq> StateHalfOpen \<longrightarrow>
            state (fst (Execute_phase3 now st None (cb', w'))) = state cb'
          \<and> snd (Execute_phase3 now st None (cb', w')) = w')
       \<and> (err \<noteq> None \<longrightarrow>
            Execute_phase3 now st err (cb'\<lparr>successCount := x\<rparr>, w')
              = Execute_phase3 now st err (cb', w'))
       \<and> fst (Execute_phase1 now (cb'\<lparr>successCount := x\<rparr>, w'))
            = fst (Execute_phase1 now (cb', w'))
       \<and> state (fst (snd (Execute_phase1 now (cb'\<lparr>successCount := x\<rparr>, w'))))
            = state (fst (snd (Execute_phase1 now (cb', w'))))
       \<and> snd (snd (Execute_phase1 now (cb'\<lparr>successCount := x\<rparr>, w')))
            = snd (snd (Execute_phase1 now (cb', w')))
       \<and> Reset (cb'\<lparr>successCount := x\<rparr>, w') = Reset (cb', w')"
proof -
  have run: "state (fst (Executes cs (cb, w))) = StateClosed
       \<and> Counts (fst (Executes cs (cb, w)))
           = (if cs = [] then failureCount cb else 0, successCount cb + of_nat (length cs))"
    using assms
  proof (induction cs arbitrary: cb w)
    case Nil
    then show ?case by (simp add: Counts_def)
  next
    case (Cons x cs)
    obtain fn t t' where x: "x = (fn, t, t')" by (cases x)
    obtain r w2 where fn: "fn w = ((r, None), w2)"
      using Cons.prems(2) unfolding x
      by (metis (mono_tags, lifting) case_prodD list.set_intros(1) prod.collapse)
    let ?cb1 = "cb\<lparr>successCount := successCount cb + 1, failureCount := 0\<rparr>"
    have step: "snd (Execute fn t t' (cb, w)) = (?cb1, w2)"
      using Cons.prems(1) fn by (simp add: Execute_closed phase3_success)
    have "state ?cb1 = StateClosed" using Cons.prems(1) by simp
    moreover have "\<forall>(fn, tt) \<in> set cs. \<forall>v. snd (fst (fn v)) = None"
      using Cons.prems(2) by simp
    ultimately have "state (fst (Executes cs (?cb1, w2))) = StateClosed
         \<and> Counts (fst (Executes cs (?cb1, w2)))
             = (if cs = [] then failureCount ?cb1 else 0, successCount ?cb1 + of_nat (length cs))"
      by (rule Cons.IH)
    then show ?case unfolding x using step by (simp add: algebra_simps)
  qed
  have resets: "successCount (fst (Execute_phase3 now st None (cb', w'))) = successCount cb' + 1
       \<and> (err \<noteq> None \<longrightarrow> successCount (fst (Execute_phase3 now st err (cb', w'))) = 0)
       \<and> (state cb' = StateOpen \<and> Timeout (settings cb') \<le>s time_Since now (openedAt cb') \<longrightarrow>
            successCount (fst (cooldownCheck now (cb', w'))) = 0)
       \<and> successCount (fst (Reset (cb', w'))) = 0"
    by (simp add: phase3_failure phase3_success cooldownCheck_eq Reset_eq)
  have only: "(st \<noteq> StateHalfOpen \<longrightarrow>
            state (fst (Execute_phase3 now st None (cb', w'))) = state cb'
          \<and> snd (Execute_phase3 now st None (cb', w')) = w')
       \<and> (err \<noteq> None \<longrightarrow>
            Execute_phase3 now st err (cb'\<lparr>successCount := x\<rparr>, w')
              = Execute_phase3 now st err (cb', w'))
       \<and> Reset (cb'\<lparr>successCount := x\<rparr>, w') = Reset (cb', w')"
    by (simp add: phase3_failure phase3_success Reset_eq)
  have gate1: "fst (Execute_phase1 now (cb'\<lparr>successCount := x\<rparr>, w'))
            = fst (Execute_phase1 now (cb', w'))
       \<and> state (fst (snd (Execute_phase1 now (cb'\<lparr>successCount := x\<rparr>, w'))))
            = state (fst (snd (Execute_phase1 now (cb', w'))))
       \<and> snd (snd (Execute_phase1 now (cb'\<lparr>successCount := x\<rparr>, w')))
            = snd (snd (Execute_phase1 now (cb', w')))"
    by (cases "state cb'") (simp_all add: Execute_phase1_def cooldownCheck_eq)
  from run resets only gate1 show ?thesis by simp
qed

text \<open>
  Two successful calls on a fresh demo breaker: Closed, and \<open>Counts\<close> reports (0, 2). A
  success with captured mode Closed recorded on the Half-Open demo breaker: counted, and
  the breaker still Half-Open with nothing fired.
\<close>

theorem closed_successes_accumulate_witness:
  "state (New demoSettings) = StateClosed
   \<and> (\<forall>v. snd (fst (stub None v)) = None)
   \<and> state (fst (Executes [(stub None, sec 0, sec 0), (stub None, sec 1, sec 1)]
        (New demoSettings, world0))) = StateClosed
   \<and> Counts (fst (Executes [(stub None, sec 0, sec 0), (stub None, sec 1, sec 1)]
        (New demoSettings, world0))) = (0, 2)
   \<and> StateClosed \<noteq> StateHalfOpen
   \<and> state (fst demoAdmitted) = StateHalfOpen
   \<and> demoLate = Execute_phase3 (sec 8) StateClosed None demoAdmitted
   \<and> Counts (fst demoLate) = (0, 1)
   \<and> state (fst demoLate) = StateHalfOpen
   \<and> snd demoLate = snd demoAdmitted"
proof -
  have h1: "state (New demoSettings) = StateClosed" by (simp add: New_def)
  have h2: "\<forall>(fn, tt) \<in> set [(stub None, sec 0, sec 0), (stub None, sec 1, sec 1)].
         \<forall>v. snd (fst (fn v)) = None"
    by (simp add: stub_def)
  have z: "successCount (New demoSettings) = 0" by (simp add: New_def)
  have h3: "state (fst demoAdmitted) = StateHalfOpen" by (simp add: demoAdmitted_eq)
  have h4: "StateClosed \<noteq> StateHalfOpen" by simp
  have cnt: "Counts (fst demoLate) = (0, 1)" by (simp add: demoLate_eq Counts_def)
  note run = closed_successes_accumulate [OF h1 h2, of world0]
  note late = closed_successes_accumulate [OF h1 h2, of world0 "sec 8" StateClosed
      "fst demoAdmitted" "snd demoAdmitted"]
  have l: "state (fst demoLate) = StateHalfOpen \<and> snd demoLate = snd demoAdmitted"
    using h3 h4
      late [THEN conjunct2, THEN conjunct2, THEN conjunct2, THEN conjunct2, THEN conjunct2,
        THEN conjunct2, THEN conjunct1]
    by (simp add: demoLate_def)
  show ?thesis
    using h1 h2 z h3 cnt l run [THEN conjunct1] run [THEN conjunct2, THEN conjunct1]
    by (simp add: demoLate_def)
qed

section \<open>Reset\<close>

text \<open>
  C8. From any mode and any counters, \<open>Reset\<close> leaves the breaker Closed with
  \<open>failureCount\<close>, \<open>successCount\<close> and \<open>halfOpenRequests\<close> at 0 and \<open>openedAt\<close> at the
  zero time, the settings kept; the notification (old mode, Closed) is fired if the mode
  was not Closed, and nothing is fired if it was.
\<close>

theorem Reset_forces_closed:
  "Reset (cb, w) =
     (\<lparr>state = StateClosed, failureCount = 0, successCount = 0, halfOpenRequests = 0,
       openedAt = 0, settings = settings cb\<rparr>,
      if state cb = StateClosed then w else notify (settings cb) (state cb) StateClosed w)"
proof -
  have "setState StateClosed (cb, w) =
          (cb\<lparr>state := StateClosed\<rparr>,
           if state cb = StateClosed then w else notify (settings cb) (state cb) StateClosed w)"
    by (rule setState_eq)
  then show ?thesis by (simp add: Reset.simps)
qed

text \<open>
  The reopened demo breaker is reset: Closed, all zero, (Open, Closed) logged. A fresh
  breaker is reset: nothing logged.
\<close>

theorem Reset_forces_closed_witness:
  "Reset demoReopened =
     (New demoSettings,
      \<lparr>notifications = [(StateClosed, StateOpen), (StateOpen, StateHalfOpen),
         (StateHalfOpen, StateOpen), (StateOpen, StateClosed)], calls = 5\<rparr>)
   \<and> Reset (New demoSettings, world0) = (New demoSettings, world0)"
proof -
  have e: "demoReopened = (fst demoReopened, snd demoReopened)" by simp
  have a: "Reset demoReopened =
     (New demoSettings,
      \<lparr>notifications = [(StateClosed, StateOpen), (StateOpen, StateHalfOpen),
         (StateHalfOpen, StateOpen), (StateOpen, StateClosed)], calls = 5\<rparr>)"
    using Reset_forces_closed [of "fst demoReopened" "snd demoReopened"]
    by (subst e) (simp add: demoReopened_eq New_def notify_def demoSettings_def logHook_def)
  have b: "Reset (New demoSettings, world0) = (New demoSettings, world0)"
    using Reset_forces_closed [of "New demoSettings" world0] by (simp add: New_def)
  from a b show ?thesis by simp
qed

end
